theory Spec2Isabelle
  imports Main "HOL-Library.Word"
begin

section \<open>The data model of skyndiminni.go\<close>

text \<open>
  Go's \<^verbatim>\<open>int64\<close> is a 64-bit word read as two's complement (\<open>sint\<close>). The code
  only compares such values, it never adds or subtracts them.
\<close>

type_synonym int64 = "64 word"

text \<open>
  \<^verbatim>\<open>type Item struct { Value interface{}; Expiration int64; creationTime int64 }\<close>.
  The payload type \<^verbatim>\<open>interface{}\<close> is the type parameter \<open>'v\<close>.
\<close>

record 'v Item =
  Value :: 'v
  Expiration :: int64
  creationTime :: int64

text \<open>
  \<^verbatim>\<open>type cache struct\<close>. The two durations are \<^verbatim>\<open>time.Duration\<close> values (an
  \<^verbatim>\<open>int64\<close> of nanoseconds). The map holds \<^verbatim>\<open>*Item\<close> pointers; \<^verbatim>\<open>Set\<close> is the only
  writer and it stores a fresh non-nil pointer, so a key maps to an item or to nothing.
  Items are held by value: the package itself never writes through a pointer it has
  stored or returned. The mutex and the wait group carry no data; they are modelled
  further down (\<open>guarded\<close>, \<open>Close\<close>).
\<close>

record 'v cache =
  defaultExpr :: int64
  checkExpiredInterval :: int64
  items :: "string \<rightharpoonup> 'v Item"

text \<open>The constants of the package; \<^verbatim>\<open>time.Minute\<close> is 60 * 10^9 nanoseconds.\<close>

definition Minute :: int64 where
  "Minute = 60000000000"

definition NoExpiration :: int64 where
  "NoExpiration = - 1"

definition DefaultExpiration :: int64 where
  "DefaultExpiration = 5 * Minute"

definition CheckExpired :: int64 where
  "CheckExpired = 10 * Minute"

text \<open>
  The two error values the package creates with \<^verbatim>\<open>errors.New\<close>:
  "key does not exist" and "key already exists".
\<close>

datatype error = KeyDoesNotExist | KeyAlreadyExists

text \<open>
  A Go result \<^verbatim>\<open>(*Item, error)\<close>: either component may be nil, and \<^verbatim>\<open>Set\<close> returns
  both non-nil on a duplicate key, so the result is a pair of options.
\<close>

type_synonym 'v result = "'v Item option \<times> error option"

section \<open>The operations\<close>

text \<open>
  \<^verbatim>\<open>NewCache\<close>, without the goroutine it starts (see \<open>sweeper\<close> below): the new
  cache and the nil error.
\<close>

definition NewCache :: "int64 \<Rightarrow> 'v cache \<times> error option" where
  "NewCache defaultExpiration =
     (\<lparr>defaultExpr = defaultExpiration,
       checkExpiredInterval = CheckExpired,
       items = Map.empty\<rparr>, None)"

text \<open>
  \<^verbatim>\<open>Get\<close> (lines 68-82). The argument \<open>now\<close> is what \<^verbatim>\<open>time.Now().Unix()\<close> returns
  when the call reads the clock (line 75). The state is passed in and returned. The
  test of line 75, \<^verbatim>\<open>item.Expiration >= time.Now().Unix()\<close>, is a comparison of signed
  64-bit integers.
\<close>

definition Get :: "int64 \<Rightarrow> string \<Rightarrow> 'v cache \<Rightarrow> 'v result \<times> 'v cache" where
  "Get now key c =
     (case items c key of
        None \<Rightarrow> ((None, Some KeyDoesNotExist), c)
      | Some item \<Rightarrow>
          if sint now \<le> sint (Expiration item)
          then ((None, Some KeyDoesNotExist), c\<lparr>items := (items c)(key := None)\<rparr>)
          else ((Some item, None), c))"

text \<open>\<^verbatim>\<open>Set\<close> (lines 85-101); \<open>now\<close> is the clock reading stored as the creation time.\<close>

definition Set :: "int64 \<Rightarrow> string \<Rightarrow> 'v \<Rightarrow> int64 \<Rightarrow> 'v cache \<Rightarrow> 'v result \<times> 'v cache" where
  "Set now key value expirationTime c =
     (case items c key of
        Some item \<Rightarrow> ((Some item, Some KeyAlreadyExists), c)
      | None \<Rightarrow>
          (let item = \<lparr>Value = value, Expiration = expirationTime, creationTime = now\<rparr>
           in ((Some item, None), c\<lparr>items := (items c)(key \<mapsto> item)\<rparr>)))"

text \<open>\<^verbatim>\<open>Update\<close> (lines 106-108): the body is \<^verbatim>\<open>return nil, nil\<close>.\<close>

definition Update :: "string \<Rightarrow> 'v \<Rightarrow> int64 \<Rightarrow> bool \<Rightarrow> 'v cache \<Rightarrow> 'v result \<times> 'v cache" where
  "Update key value expirationTime setIfNotExist c = ((None, None), c)"

text \<open>
  \<^verbatim>\<open>initExpiration\<close> (lines 110-118). The \<^verbatim>\<open>range\<close> loop yields the keys of the map in
  an order Go leaves open, and the body reads the clock once per iteration. The list
  \<open>visits\<close> gives, in the order of the loop, each key yielded and the clock reading
  of its iteration. \<open>expire\<close> is the loop body (lines 113-115), \<open>range_items\<close> the
  loop. The loop never yields a key that is not in the map; the body of the model
  leaves the map alone there.
\<close>

definition expire :: "string \<Rightarrow> int64 \<Rightarrow> (string \<rightharpoonup> 'v Item) \<Rightarrow> (string \<rightharpoonup> 'v Item)" where
  "expire k now m =
     (case m k of
        None \<Rightarrow> m
      | Some v \<Rightarrow> if sint now \<le> sint (Expiration v) then m(k := None) else m)"

fun range_items :: "(string \<times> int64) list \<Rightarrow> (string \<rightharpoonup> 'v Item) \<Rightarrow> (string \<rightharpoonup> 'v Item)" where
  "range_items [] m = m"
| "range_items ((k, now) # visits) m = range_items visits (expire k now m)"

definition initExpiration :: "(string \<times> int64) list \<Rightarrow> 'v cache \<Rightarrow> 'v cache" where
  "initExpiration visits c = c\<lparr>items := range_items visits (items c)\<rparr>"

text \<open>
  What Go guarantees of the loop: every key of the map is yielded exactly once (the
  body deletes only the key it is at).
\<close>

definition range_order :: "(string \<times> int64) list \<Rightarrow> 'v cache \<Rightarrow> bool" where
  "range_order visits c = (distinct (map fst visits) \<and> set (map fst visits) = dom (items c))"

section \<open>Sequences of calls\<close>

text \<open>
  A client's calls on one cache, one after the other, each with the clock readings it
  makes. \<open>perform\<close> makes one call and \<open>run\<close> a sequence of them, collecting the
  results (a sweep pass returns nothing).
\<close>

datatype 'v call =
    GetCall int64 string
  | SetCall int64 string 'v int64
  | UpdateCall string 'v int64 bool
  | SweepPass "(string \<times> int64) list"

fun perform :: "'v call \<Rightarrow> 'v cache \<Rightarrow> 'v result option \<times> 'v cache" where
  "perform (GetCall now key) c = apfst Some (Get now key c)"
| "perform (SetCall now key value expirationTime) c =
     apfst Some (Set now key value expirationTime c)"
| "perform (UpdateCall key value expirationTime setIfNotExist) c =
     apfst Some (Update key value expirationTime setIfNotExist c)"
| "perform (SweepPass visits) c = (None, initExpiration visits c)"

fun run :: "'v call list \<Rightarrow> 'v cache \<Rightarrow> 'v result option list \<times> 'v cache" where
  "run [] c = ([], c)"
| "run (x # xs) c =
     (case perform x c of (r, c') \<Rightarrow>
        (case run xs c' of (rs, c'') \<Rightarrow> (r # rs, c'')))"

text \<open>The clock readings of a call, and the calls of a sequence that read the clock
  at or after the Unix epoch only.\<close>

fun clock_readings :: "'v call \<Rightarrow> int64 list" where
  "clock_readings (GetCall now key) = [now]"
| "clock_readings (SetCall now key value expirationTime) = [now]"
| "clock_readings (UpdateCall key value expirationTime setIfNotExist) = []"
| "clock_readings (SweepPass visits) = map snd visits"

definition epoch_clock :: "'v call list \<Rightarrow> bool" where
  "epoch_clock calls = list_all (\<lambda>t. 0 \<le> sint t) (concat (map clock_readings calls))"

text \<open>The calls that are meant to create an entry for the key \<open>k\<close>: a \<open>Set\<close> on it,
  and an \<open>Update\<close> on it with \<open>setIfNotExist\<close>.\<close>

fun creates :: "string \<Rightarrow> 'v call \<Rightarrow> bool" where
  "creates k (GetCall now key) = False"
| "creates k (SetCall now key value expirationTime) = (key = k)"
| "creates k (UpdateCall key value expirationTime setIfNotExist) = (key = k \<and> setIfNotExist)"
| "creates k (SweepPass visits) = False"

text \<open>The calls that only read: a \<open>Get\<close> (on any key) and a sweep pass.\<close>

fun get_or_sweep :: "'v call \<Rightarrow> bool" where
  "get_or_sweep (GetCall now key) = True"
| "get_or_sweep (SetCall now key value expirationTime) = False"
| "get_or_sweep (UpdateCall key value expirationTime setIfNotExist) = False"
| "get_or_sweep (SweepPass visits) = True"

text \<open>
  Of the results of a sequence of calls, those of the \<open>Get\<close> calls on the key \<open>k\<close>,
  in order.
\<close>

fun Get_replies :: "string \<Rightarrow> 'v call list \<Rightarrow> 'v result option list \<Rightarrow> 'v result option list" where
  "Get_replies k (GetCall now key # xs) (r # rs) =
     (if key = k then r # Get_replies k xs rs else Get_replies k xs rs)"
| "Get_replies k (x # xs) (r # rs) = Get_replies k xs rs"
| "Get_replies k xs rs = []"

section \<open>The background goroutine and Close\<close>

text \<open>
  The goroutine \<^verbatim>\<open>NewCache\<close> starts (lines 50-57):
  \<^verbatim>\<open>defer c.wg.Done(); for { c.initExpiration(); time.Sleep(c.checkExpiredInterval) }\<close>.
  \<open>sweeper\<close> is its loop, from the \<open>n\<close>-th iteration on: \<open>visits n c\<close> is the order and
  the clock readings of the \<open>n\<close>-th pass over the cache \<open>c\<close>, and \<open>others n\<close> is what
  the other goroutines do to the cache while the loop sleeps for the \<open>n\<close>-th time. The
  value is the cache the loop ends with, or \<open>None\<close> when it never ends.
\<close>

partial_function (option) sweeper ::
  "(nat \<Rightarrow> 'v cache \<Rightarrow> (string \<times> int64) list) \<Rightarrow> (nat \<Rightarrow> 'v cache \<Rightarrow> 'v cache) \<Rightarrow>
   nat \<Rightarrow> 'v cache \<Rightarrow> 'v cache option" where
  "sweeper visits others n c =
     sweeper visits others (Suc n) (others n (initExpiration (visits n c) c))"

text \<open>
  The goroutine with its deferred \<^verbatim>\<open>wg.Done()\<close>: the counter of the wait group after
  the goroutine has ended, \<open>None\<close> when it never ends.
\<close>

definition goroutine ::
  "(nat \<Rightarrow> 'v cache \<Rightarrow> (string \<times> int64) list) \<Rightarrow> (nat \<Rightarrow> 'v cache \<Rightarrow> 'v cache) \<Rightarrow>
   'v cache \<Rightarrow> nat \<Rightarrow> nat option" where
  "goroutine visits others c wg =
     (case sweeper visits others 0 c of None \<Rightarrow> None | Some c' \<Rightarrow> Some (wg - 1))"

text \<open>
  \<^verbatim>\<open>Close\<close> (lines 63-65) is \<^verbatim>\<open>c.wg.Wait()\<close>: it returns once the counter, which \<^verbatim>\<open>NewCache\<close> set to
  1 with \<^verbatim>\<open>c.wg.Add(1)\<close>, is 0. Only the goroutine's \<^verbatim>\<open>Done\<close> lowers it. \<open>None\<close> says
  that \<open>Close\<close> never returns.
\<close>

definition Close ::
  "(nat \<Rightarrow> 'v cache \<Rightarrow> (string \<times> int64) list) \<Rightarrow> (nat \<Rightarrow> 'v cache \<Rightarrow> 'v cache) \<Rightarrow>
   'v cache \<Rightarrow> unit option" where
  "Close visits others c =
     (case goroutine visits others c (0 + 1) of
        None \<Rightarrow> None
      | Some wg \<Rightarrow> if wg = 0 then Some () else None)"

section \<open>Locks and accesses to the map\<close>

text \<open>
  What a call does to the mutex and to the map \<^verbatim>\<open>c.items\<close>, in program order:
  \<^verbatim>\<open>c.mut.RLock()\<close>, \<^verbatim>\<open>RUnlock()\<close>, \<^verbatim>\<open>Lock()\<close>, \<^verbatim>\<open>Unlock()\<close>, a read of a key (an index
  expression, or an entry the \<^verbatim>\<open>range\<close> loop yields), an assignment to a key and a
  \<^verbatim>\<open>delete\<close>. \<open>Get_accesses\<close> follows lines 69-80 (\<^verbatim>\<open>RLock\<close> at 69, the read at 70,
  the \<^verbatim>\<open>delete\<close> at 76, \<^verbatim>\<open>RUnlock\<close> at 72, 77 or 80), \<open>Set_accesses\<close> lines 86-99
  (\<^verbatim>\<open>Lock\<close> at 86, the read at 87, the assignment at 98, \<^verbatim>\<open>Unlock\<close> at 89 or 99) and
  \<open>initExpiration_accesses\<close> lines 111-117 (\<^verbatim>\<open>Lock\<close> at 111, the loop at 112-116
  with its \<^verbatim>\<open>delete\<close> at 114, \<^verbatim>\<open>Unlock\<close> at 117). The branches are those of \<open>Get\<close>,
  \<open>Set\<close> and \<open>range_items\<close>.
\<close>

datatype 'v access =
    RLock | RUnlock | Lock | Unlock
  | Load string
  | Store string "'v Item"
  | Delete string

definition Get_accesses :: "int64 \<Rightarrow> string \<Rightarrow> 'v cache \<Rightarrow> 'v access list" where
  "Get_accesses now key c =
     RLock # Load key #
     (case items c key of
        None \<Rightarrow> [RUnlock]
      | Some item \<Rightarrow>
          if sint now \<le> sint (Expiration item) then [Delete key, RUnlock] else [RUnlock])"

definition Set_accesses :: "int64 \<Rightarrow> string \<Rightarrow> 'v \<Rightarrow> int64 \<Rightarrow> 'v cache \<Rightarrow> 'v access list" where
  "Set_accesses now key value expirationTime c =
     Lock # Load key #
     (case items c key of
        Some item \<Rightarrow> [Unlock]
      | None \<Rightarrow>
          [Store key \<lparr>Value = value, Expiration = expirationTime, creationTime = now\<rparr>,
           Unlock])"

fun range_accesses :: "(string \<times> int64) list \<Rightarrow> (string \<rightharpoonup> 'v Item) \<Rightarrow> 'v access list" where
  "range_accesses [] m = []"
| "range_accesses ((k, now) # visits) m =
     Load k #
     (case m k of
        None \<Rightarrow> []
      | Some v \<Rightarrow> if sint now \<le> sint (Expiration v) then [Delete k] else [])
     @ range_accesses visits (expire k now m)"

definition initExpiration_accesses :: "(string \<times> int64) list \<Rightarrow> 'v cache \<Rightarrow> 'v access list" where
  "initExpiration_accesses visits c = Lock # range_accesses visits (items c) @ [Unlock]"

text \<open>The map that a list of accesses leaves behind.\<close>

fun replay :: "'v access list \<Rightarrow> (string \<rightharpoonup> 'v Item) \<Rightarrow> (string \<rightharpoonup> 'v Item)" where
  "replay [] m = m"
| "replay (Store k v # as) m = replay as (m(k \<mapsto> v))"
| "replay (Delete k # as) m = replay as (m(k := None))"
| "replay (a # as) m = replay as m"

text \<open>
  The lock the running call holds, and the discipline: a read of the map needs the
  read lock or the write lock, an assignment and a \<^verbatim>\<open>delete\<close> need the write lock.
\<close>

datatype held = NoLock | ReadLock | WriteLock

fun guarded :: "held \<Rightarrow> 'v access list \<Rightarrow> bool" where
  "guarded h [] = True"
| "guarded h (RLock # as) = guarded ReadLock as"
| "guarded h (RUnlock # as) = guarded NoLock as"
| "guarded h (Lock # as) = guarded WriteLock as"
| "guarded h (Unlock # as) = guarded NoLock as"
| "guarded h (Load k # as) = (h \<noteq> NoLock \<and> guarded h as)"
| "guarded h (Store k v # as) = (h = WriteLock \<and> guarded h as)"
| "guarded h (Delete k # as) = (h = WriteLock \<and> guarded h as)"


section \<open>Get and Set on one key\<close>

lemma Get_absent:
  "items c key = None \<Longrightarrow> Get now key c = ((None, Some KeyDoesNotExist), c)"
  by (simp add: Get_def)

lemma Get_evicts:
  "items c key = Some item \<Longrightarrow> sint now \<le> sint (Expiration item) \<Longrightarrow>
   Get now key c = ((None, Some KeyDoesNotExist), c\<lparr>items := (items c)(key := None)\<rparr>)"
  by (simp add: Get_def)

lemma Set_absent:
  "items c key = None \<Longrightarrow>
   Set now key value expirationTime c =
     ((Some \<lparr>Value = value, Expiration = expirationTime, creationTime = now\<rparr>, None),
      c\<lparr>items := (items c)(key \<mapsto>
          \<lparr>Value = value, Expiration = expirationTime, creationTime = now\<rparr>)\<rparr>)"
  by (simp add: Set_def Let_def)

text \<open>
  C1. The code does the opposite of the statement. For a key that is absent, \<open>Set\<close>
  succeeds and stores the entry; but a \<open>Get\<close> on the key, made while the expiration
  instant is still strictly in the future (\<open>now' < expirationTime\<close>), takes the branch
  \<^verbatim>\<open>item.Expiration >= time.Now().Unix()\<close>: it deletes the entry and fails with "key
  does not exist", so the cache is back to what it was before the \<open>Set\<close>.
\<close>

theorem Set_then_Get_not_found:
  assumes "items c key = None" and "sint now' < sint expirationTime"
  shows "fst (Set now key value expirationTime c) =
           (Some \<lparr>Value = value, Expiration = expirationTime, creationTime = now\<rparr>, None)
       \<and> Get now' key (snd (Set now key value expirationTime c)) =
           ((None, Some KeyDoesNotExist), c)"
proof -
  let ?item = "\<lparr>Value = value, Expiration = expirationTime, creationTime = now\<rparr>"
  let ?c' = "c\<lparr>items := (items c)(key \<mapsto> ?item)\<rparr>"
  have s: "Set now key value expirationTime c = ((Some ?item, None), ?c')"
    using assms(1) by (rule Set_absent)
  have "Get now' key ?c' =
      ((None, Some KeyDoesNotExist), ?c'\<lparr>items := (items ?c')(key := None)\<rparr>)"
    using assms(2) by (intro Get_evicts [where item = ?item]) simp_all
  moreover have "?c'\<lparr>items := (items ?c')(key := None)\<rparr> = c"
    using assms(1) by (simp add: fun_upd_idem)
  ultimately show ?thesis using s by simp
qed

theorem Set_then_Get_not_found_witness:
  "fst (Set 100 ''a'' (42::nat) 110 (fst (NewCache DefaultExpiration))) =
     (Some \<lparr>Value = 42, Expiration = 110, creationTime = 100\<rparr>, None)
   \<and> Get 100 ''a'' (snd (Set 100 ''a'' (42::nat) 110 (fst (NewCache DefaultExpiration)))) =
     ((None, Some KeyDoesNotExist), fst (NewCache DefaultExpiration))"
  by (rule Set_then_Get_not_found) (simp_all add: NewCache_def)

text \<open>
  C2. The code does not evict an entry whose expiration instant is strictly before the
  current time: the test \<^verbatim>\<open>item.Expiration >= time.Now().Unix()\<close> is false for it,
  so \<open>Get\<close> returns the entry with no error and leaves the map as it is. (Only when
  the expiration instant equals the current time does \<open>Get\<close> evict, see \<open>Get_evicts\<close>.)
\<close>

theorem Get_returns_expired:
  "items c key = Some item \<Longrightarrow> sint (Expiration item) < sint now \<Longrightarrow>
   Get now key c = ((Some item, None), c)"
  by (simp add: Get_def)

theorem Get_returns_expired_witness:
  "Get 111 ''a''
     \<lparr>defaultExpr = DefaultExpiration, checkExpiredInterval = CheckExpired,
       items = [''a'' \<mapsto> \<lparr>Value = 42::nat, Expiration = 110, creationTime = 100\<rparr>]\<rparr>
   = ((Some \<lparr>Value = 42, Expiration = 110, creationTime = 100\<rparr>, None),
      \<lparr>defaultExpr = DefaultExpiration, checkExpiredInterval = CheckExpired,
       items = [''a'' \<mapsto> \<lparr>Value = 42, Expiration = 110, creationTime = 100\<rparr>]\<rparr>)"
  by (rule Get_returns_expired
        [where item = "\<lparr>Value = 42, Expiration = 110, creationTime = 100\<rparr>"]) simp_all

text \<open>
  C3. When the map has an entry for the key, whatever its expiration instant, \<open>Set\<close>
  returns that entry together with the error "key already exists" and leaves the
  whole cache (the stored entry and every other key) as it was.
\<close>

theorem Set_existing_key:
  "items c key = Some item \<Longrightarrow>
   Set now key value expirationTime c = ((Some item, Some KeyAlreadyExists), c)"
  by (simp add: Set_def)

theorem Set_existing_key_witness:
  "Set 100 ''a'' (99::nat) 110
     (\<lparr>defaultExpr = DefaultExpiration, checkExpiredInterval = CheckExpired,
       items = [''a'' \<mapsto> \<lparr>Value = 42, Expiration = 110, creationTime = 100\<rparr>]\<rparr>)
   = ((Some \<lparr>Value = 42, Expiration = 110, creationTime = 100\<rparr>, Some KeyAlreadyExists),
      \<lparr>defaultExpr = DefaultExpiration, checkExpiredInterval = CheckExpired,
       items = [''a'' \<mapsto> \<lparr>Value = 42, Expiration = 110, creationTime = 100\<rparr>]\<rparr>)"
  by (rule Set_existing_key) simp

section \<open>Update\<close>

text \<open>
  C4. \<open>Update\<close> does nothing: for every key, value, expiration instant and flag it
  returns the nil entry and the nil error, and the cache is unchanged. It neither
  replaces an existing entry, nor creates one, nor fails with "key does not exist".
\<close>

theorem Update_does_nothing:
  "Update key value expirationTime setIfNotExist c = ((None, None), c)"
  by (simp add: Update_def)

section \<open>The sweep pass\<close>

lemma expire_apply:
  "expire k now m k' =
     (if k' = k then (case m k of None \<Rightarrow> None
                      | Some v \<Rightarrow> if sint now \<le> sint (Expiration v) then None else Some v)
      else m k')"
  by (simp add: expire_def split: option.splits)

lemma expire_subset:
  "expire k' now m k = Some v \<Longrightarrow> m k = Some v"
  by (simp add: expire_apply split: if_splits option.splits)

lemma range_items_unvisited:
  "k \<notin> fst ` set visits \<Longrightarrow> range_items visits m k = m k"
  by (induction visits arbitrary: m) (auto simp: expire_apply)

text \<open>The loop decides on each entry by the clock reading of the entry's own iteration.\<close>

lemma range_items_visited:
  "distinct (map fst visits) \<Longrightarrow> (k, now) \<in> set visits \<Longrightarrow>
   range_items visits m k =
     (case m k of None \<Rightarrow> None
      | Some v \<Rightarrow> if sint now \<le> sint (Expiration v) then None else Some v)"
proof (induction visits arbitrary: m)
  case Nil
  then show ?case by simp
next
  case (Cons a visits)
  obtain k' t where a: "a = (k', t)" by (cases a)
  show ?case
  proof (cases "(k, now) = a")
    case True
    with a have eq: "k' = k" "t = now" by simp_all
    with Cons.prems a have "k \<notin> fst ` set visits" by auto
    then have "range_items visits (expire k now m) k = expire k now m k"
      by (rule range_items_unvisited)
    then show ?thesis unfolding a eq by (simp add: expire_apply)
  next
    case False
    with Cons.prems have in_rest: "(k, now) \<in> set visits" and d: "distinct (map fst visits)"
      by auto
    from in_rest Cons.prems a have "k \<noteq> k'" by force
    then have "expire k' t m k = m k" by (simp add: expire_apply)
    moreover have "range_items visits (expire k' t m) k =
        (case expire k' t m k of None \<Rightarrow> None
         | Some v \<Rightarrow> if sint now \<le> sint (Expiration v) then None else Some v)"
      using d in_rest by (rule Cons.IH)
    ultimately show ?thesis using a by simp
  qed
qed

lemma range_items_subset:
  "range_items visits m k = Some v \<Longrightarrow> m k = Some v"
proof (induction visits arbitrary: m)
  case Nil
  then show ?case by simp
next
  case (Cons a visits)
  obtain k' t where a: "a = (k', t)" by (cases a)
  from Cons.prems a have "range_items visits (expire k' t m) k = Some v" by simp
  then have "expire k' t m k = Some v" by (rule Cons.IH)
  then show ?case by (rule expire_subset)
qed

text \<open>
  C5. A sweep pass that visits every entry once and reads the clock as \<open>now\<close>
  throughout removes the entries whose expiration instant is at or after \<open>now\<close> and
  keeps exactly those whose expiration instant is strictly before \<open>now\<close>: entries
  inserted with expirations in the past are all still present after the pass, and
  entries that have not expired yet are the ones removed.
\<close>

theorem initExpiration_pass:
  assumes "range_order visits c" and "snd ` set visits \<subseteq> {now}"
  shows "items (initExpiration visits c) =
           (\<lambda>k. case items c k of None \<Rightarrow> None
                | Some v \<Rightarrow> if sint now \<le> sint (Expiration v) then None else Some v)"
proof
  fix k
  show "items (initExpiration visits c) k =
          (case items c k of None \<Rightarrow> None
           | Some v \<Rightarrow> if sint now \<le> sint (Expiration v) then None else Some v)"
  proof (cases "items c k")
    case None
    with assms(1) have "k \<notin> fst ` set visits" by (auto simp: range_order_def)
    then show ?thesis using None by (simp add: initExpiration_def range_items_unvisited)
  next
    case (Some v)
    with assms(1) have "k \<in> fst ` set visits" by (auto simp: range_order_def)
    then obtain t where t: "(k, t) \<in> set visits" by auto
    with assms(2) have "t = now" by auto
    with t assms(1) show ?thesis
      by (simp add: initExpiration_def range_order_def range_items_visited)
  qed
qed

theorem initExpiration_pass_witness:
  "items (initExpiration [(''a'', 200), (''b'', 200), (''c'', 200)]
     \<lparr>defaultExpr = DefaultExpiration, checkExpiredInterval = CheckExpired,
       items = [''a'' \<mapsto> \<lparr>Value = 1::nat, Expiration = 110, creationTime = 100\<rparr>,
                ''b'' \<mapsto> \<lparr>Value = 2, Expiration = 120, creationTime = 100\<rparr>,
                ''c'' \<mapsto> \<lparr>Value = 3, Expiration = 900, creationTime = 100\<rparr>]\<rparr>)
   = [''a'' \<mapsto> \<lparr>Value = 1::nat, Expiration = 110, creationTime = 100\<rparr>,
      ''b'' \<mapsto> \<lparr>Value = 2, Expiration = 120, creationTime = 100\<rparr>]"
proof -
  let ?c = "\<lparr>defaultExpr = DefaultExpiration, checkExpiredInterval = CheckExpired,
       items = [''a'' \<mapsto> \<lparr>Value = 1::nat, Expiration = 110, creationTime = 100\<rparr>,
                ''b'' \<mapsto> \<lparr>Value = 2, Expiration = 120, creationTime = 100\<rparr>,
                ''c'' \<mapsto> \<lparr>Value = 3, Expiration = 900, creationTime = 100\<rparr>]\<rparr>"
  have o: "range_order [(''a'', 200), (''b'', 200), (''c'', 200)] ?c"
    by (auto simp: range_order_def)
  have t: "snd ` set [(''a'', 200 :: int64), (''b'', 200), (''c'', 200)] \<subseteq> {200}"
    by simp
  show ?thesis
    unfolding initExpiration_pass [OF o t]
    by (rule ext) simp
qed

section \<open>Entries with NoExpiration\<close>

text \<open>
  The clock readings in this section are Unix times at or after the epoch
  (\<^verbatim>\<open>time.Now().Unix() >= 0\<close>), which is what the clock of a running system returns.
  The sentinel is \<open>- 1\<close>, so the tests of lines 75 and 113,
  \<^verbatim>\<open>Expiration >= time.Now().Unix()\<close>, are false for it at every such reading.
  The code has no other test for the sentinel; readings before the epoch (a clock set
  before 1970) are outside this section.
\<close>

lemma sint_NoExpiration: "sint NoExpiration = - 1"
  by (simp add: NoExpiration_def)

lemma expire_NoExpiration:
  assumes "m k = Some item" and "Expiration item = NoExpiration" and "0 \<le> sint t"
  shows "expire k' t m k = Some item"
proof (cases "k' = k")
  case True
  from assms(2,3) have "\<not> sint t \<le> sint (Expiration item)"
    by (simp add: sint_NoExpiration)
  with assms(1) True show ?thesis by (simp add: expire_def)
next
  case False
  with assms(1) show ?thesis by (simp add: expire_apply)
qed

lemma range_items_NoExpiration:
  "m k = Some item \<Longrightarrow> Expiration item = NoExpiration \<Longrightarrow>
   list_all (\<lambda>t. 0 \<le> sint t) (map snd visits) \<Longrightarrow>
   range_items visits m k = Some item"
proof (induction visits arbitrary: m)
  case Nil
  then show ?case by simp
next
  case (Cons a visits)
  obtain k' t where a: "a = (k', t)" by (cases a)
  from Cons.prems a have "0 \<le> sint t" by simp
  with Cons.prems(1,2) have "expire k' t m k = Some item" by (rule expire_NoExpiration)
  moreover from Cons.prems have "list_all (\<lambda>t. 0 \<le> sint t) (map snd visits)" by simp
  ultimately have "range_items visits (expire k' t m) k = Some item"
    using Cons.prems(2) by (intro Cons.IH)
  then show ?case using a by simp
qed

lemma Get_NoExpiration:
  assumes "items c key = Some item" and "Expiration item = NoExpiration" and "0 \<le> sint now"
  shows "Get now key c = ((Some item, None), c)"
proof -
  from assms(2,3) have "\<not> sint now \<le> sint (Expiration item)"
    by (simp add: sint_NoExpiration)
  with assms(1) show ?thesis by (simp add: Get_def)
qed

lemma perform_NoExpiration:
  assumes "items c k = Some item" and "Expiration item = NoExpiration"
    and "get_or_sweep x" and "list_all (\<lambda>t. 0 \<le> sint t) (clock_readings x)"
  shows "items (snd (perform x c)) k = Some item"
proof (cases x)
  case (GetCall now key)
  show ?thesis
  proof (cases "key = k")
    case True
    with assms GetCall have "Get now key c = ((Some item, None), c)"
      by (intro Get_NoExpiration) simp_all
    with assms(1) GetCall show ?thesis by simp
  next
    case False
    with assms(1) GetCall show ?thesis by (simp add: Get_def split: option.splits)
  qed
next
  case (SetCall now key v e)
  with assms(3) show ?thesis by simp
next
  case (UpdateCall key v e b)
  with assms(3) show ?thesis by simp
next
  case (SweepPass visits)
  with assms have "range_items visits (items c) k = Some item"
    by (intro range_items_NoExpiration) simp_all
  with SweepPass show ?thesis by (simp add: initExpiration_def)
qed

text \<open>
  C6. Take an entry whose expiration is the sentinel \<open>NoExpiration\<close>, and any sequence
  of \<open>Get\<close> calls (on its key or on others) and sweep passes, at clock readings at or
  after the epoch. Neither the expiration check in \<open>Get\<close> nor a sweep pass removes
  the entry: it is in the map after the sequence, unchanged, and every \<open>Get\<close> on its
  key in the sequence has succeeded and returned it, with no error.
\<close>

theorem NoExpiration_never_removed:
  assumes "items c key = Some item" and "Expiration item = NoExpiration"
    and "list_all get_or_sweep calls" and "epoch_clock calls"
  shows "items (snd (run calls c)) key = Some item
       \<and> list_all (\<lambda>r. r = Some (Some item, None)) (Get_replies key calls (fst (run calls c)))"
  using assms
proof (induction calls arbitrary: c)
  case Nil
  then show ?case by simp
next
  case (Cons x xs)
  let ?c' = "snd (perform x c)"
  from Cons.prems have x: "get_or_sweep x" "list_all (\<lambda>t. 0 \<le> sint t) (clock_readings x)"
    and xs: "list_all get_or_sweep xs" "epoch_clock xs"
    by (simp_all add: epoch_clock_def)
  from Cons.prems(1,2) x have kept: "items ?c' key = Some item"
    by (rule perform_NoExpiration)
  from kept Cons.prems(2) xs
  have IH: "items (snd (run xs ?c')) key = Some item
       \<and> list_all (\<lambda>r. r = Some (Some item, None)) (Get_replies key xs (fst (run xs ?c')))"
    by (rule Cons.IH)
  have r: "run (x # xs) c = (fst (perform x c) # fst (run xs ?c'), snd (run xs ?c'))"
    by (simp add: split_beta)
  have "list_all (\<lambda>r. r = Some (Some item, None))
          (Get_replies key (x # xs) (fst (perform x c) # fst (run xs ?c')))"
  proof (cases x)
    case (GetCall now k)
    show ?thesis
    proof (cases "k = key")
      case True
      from x GetCall have "0 \<le> sint now" by simp
      with Cons.prems(1,2) have "Get now key c = ((Some item, None), c)"
        by (rule Get_NoExpiration)
      with True GetCall IH show ?thesis by simp
    next
      case False
      with GetCall IH show ?thesis by simp
    qed
  next
    case (SetCall now k v e)
    with IH show ?thesis by simp
  next
    case (UpdateCall k v e b)
    with IH show ?thesis by simp
  next
    case (SweepPass visits)
    with IH show ?thesis by simp
  qed
  with IH show ?case unfolding r by simp
qed

theorem NoExpiration_never_removed_witness:
  "items (snd (run [GetCall 100 ''a'', SweepPass [(''a'', 200)], GetCall 300 ''a'',
                    SweepPass [(''a'', 900)], GetCall 1000 ''b'', GetCall 1500 ''a'']
      \<lparr>defaultExpr = DefaultExpiration, checkExpiredInterval = CheckExpired,
       items = [''a'' \<mapsto> \<lparr>Value = 42::nat, Expiration = NoExpiration, creationTime = 50\<rparr>]\<rparr>)) ''a''
    = Some \<lparr>Value = 42, Expiration = NoExpiration, creationTime = 50\<rparr>
   \<and> list_all (\<lambda>r. r = Some (Some \<lparr>Value = 42, Expiration = NoExpiration, creationTime = 50\<rparr>, None))
       (Get_replies ''a''
          [GetCall 100 ''a'', SweepPass [(''a'', 200)], GetCall 300 ''a'',
           SweepPass [(''a'', 900)], GetCall 1000 ''b'', GetCall 1500 ''a'']
          (fst (run [GetCall 100 ''a'', SweepPass [(''a'', 200)], GetCall 300 ''a'',
                    SweepPass [(''a'', 900)], GetCall 1000 ''b'', GetCall 1500 ''a'']
      \<lparr>defaultExpr = DefaultExpiration, checkExpiredInterval = CheckExpired,
       items = [''a'' \<mapsto> \<lparr>Value = 42::nat, Expiration = NoExpiration, creationTime = 50\<rparr>]\<rparr>)))"
  by (rule NoExpiration_never_removed
        [where item = "\<lparr>Value = 42, Expiration = NoExpiration, creationTime = 50\<rparr>"])
     (simp_all add: epoch_clock_def)

text \<open>The replies of the repeated \<open>Get\<close> calls of such a sequence, evaluated.\<close>

lemma Get_replies_NoExpiration_example:
  "Get_replies ''a''
     [GetCall 100 ''a'', SweepPass [(''a'', 200)], GetCall 300 ''a'']
     (fst (run [GetCall 100 ''a'', SweepPass [(''a'', 200)], GetCall 300 ''a'']
        \<lparr>defaultExpr = DefaultExpiration, checkExpiredInterval = CheckExpired,
         items = [''a'' \<mapsto> \<lparr>Value = 42::nat, Expiration = NoExpiration, creationTime = 50\<rparr>]\<rparr>))
   = [Some (Some \<lparr>Value = 42, Expiration = NoExpiration, creationTime = 50\<rparr>, None),
      Some (Some \<lparr>Value = 42, Expiration = NoExpiration, creationTime = 50\<rparr>, None)]"
  by (simp add: Get_def initExpiration_def expire_def NoExpiration_def)

section \<open>Close\<close>

lemma sweeper_never_returns: "sweeper visits others n c = None"
proof (rule ccontr)
  assume "sweeper visits others n c \<noteq> None"
  then obtain y where eq: "sweeper visits others n c = Some y" by auto
  show False
    by (rule sweeper.raw_induct [where P = "\<lambda>_ _ _ _ _. False", OF _ eq]) blast
qed

text \<open>
  C7. \<open>Close\<close> never returns, and it does nothing to the goroutine: the loop of the
  sweeper has no exit, so the deferred \<^verbatim>\<open>wg.Done()\<close> never runs and \<^verbatim>\<open>wg.Wait()\<close>
  waits for ever, whatever the passes do and whatever the other goroutines do.
\<close>

theorem Close_never_returns: "Close visits others c = None"
  by (simp add: Close_def goroutine_def sweeper_never_returns)

section \<open>The lock discipline\<close>

text \<open>The accesses of a call, replayed on the map, give the map the call leaves.\<close>

lemma replay_Get: "replay (Get_accesses now key c) (items c) = items (snd (Get now key c))"
  by (simp add: Get_accesses_def Get_def split: option.splits)

lemma replay_Set:
  "replay (Set_accesses now key value expirationTime c) (items c) =
   items (snd (Set now key value expirationTime c))"
  by (simp add: Set_accesses_def Set_def Let_def split: option.splits)

lemma replay_append: "replay (as @ bs) m = replay bs (replay as m)"
proof (induction as arbitrary: m)
  case Nil
  show ?case by simp
next
  case (Cons a as)
  show ?case by (cases a) (simp_all only: append_Cons replay.simps Cons.IH)
qed

lemma replay_range: "replay (range_accesses visits m) m = range_items visits m"
proof (induction visits arbitrary: m)
  case Nil
  show ?case by simp
next
  case (Cons a visits)
  obtain k t where a: "a = (k, t)" by (cases a)
  have "replay (case m k of None \<Rightarrow> []
         | Some v \<Rightarrow> if sint t \<le> sint (Expiration v) then [Delete k] else []) m = expire k t m"
    by (simp add: expire_def split: option.splits)
  then show ?case unfolding a by (simp add: replay_append Cons.IH)
qed

lemma replay_initExpiration:
  "replay (initExpiration_accesses visits c) (items c) = items (initExpiration visits c)"
  by (simp add: initExpiration_accesses_def initExpiration_def replay_append replay_range)

text \<open>\<open>Set\<close> and the sweep pass keep the discipline on every input.\<close>

lemma Set_guarded: "guarded NoLock (Set_accesses now key value expirationTime c)"
  by (simp add: Set_accesses_def split: option.splits)

lemma range_guarded: "guarded WriteLock (range_accesses visits m @ [Unlock])"
proof (induction visits arbitrary: m)
  case Nil
  show ?case by simp
next
  case (Cons a visits)
  obtain k t where a: "a = (k, t)" by (cases a)
  show ?case unfolding a using Cons.IH [of "expire k t m"]
    by (simp split: option.splits)
qed

lemma initExpiration_guarded: "guarded NoLock (initExpiration_accesses visits c)"
  by (simp add: initExpiration_accesses_def range_guarded)

text \<open>\<open>Get\<close> keeps it exactly when it does not evict.\<close>

lemma Get_guarded_iff:
  "guarded NoLock (Get_accesses now key c) \<longleftrightarrow>
   (case items c key of None \<Rightarrow> True | Some item \<Rightarrow> sint (Expiration item) < sint now)"
  by (auto simp: Get_accesses_def split: option.splits)

text \<open>
  C8. The statement fails for the eviction in \<open>Get\<close>: when \<open>Get\<close> finds an entry whose
  expiration instant is at or after the clock reading, it takes the read lock
  (\<^verbatim>\<open>c.mut.RLock()\<close>), reads the key, deletes it and releases the read lock: the
  \<^verbatim>\<open>delete\<close> is a mutation of the map made without the write lock.
\<close>

theorem Get_deletes_under_read_lock:
  "items c key = Some item \<Longrightarrow> sint now \<le> sint (Expiration item) \<Longrightarrow>
   Get_accesses now key c = [RLock, Load key, Delete key, RUnlock]
   \<and> \<not> guarded NoLock (Get_accesses now key c)"
  by (simp add: Get_accesses_def)

theorem Get_deletes_under_read_lock_witness:
  "Get_accesses 100 ''a''
     \<lparr>defaultExpr = DefaultExpiration, checkExpiredInterval = CheckExpired,
       items = [''a'' \<mapsto> \<lparr>Value = 42::nat, Expiration = 110, creationTime = 100\<rparr>]\<rparr>
     = [RLock, Load ''a'', Delete ''a'', RUnlock]
   \<and> \<not> guarded NoLock (Get_accesses 100 ''a''
     \<lparr>defaultExpr = DefaultExpiration, checkExpiredInterval = CheckExpired,
       items = [''a'' \<mapsto> \<lparr>Value = 42::nat, Expiration = 110, creationTime = 100\<rparr>]\<rparr>)"
  by (rule Get_deletes_under_read_lock
        [where item = "\<lparr>Value = 42, Expiration = 110, creationTime = 100\<rparr>"]) simp_all

section \<open>Keys that were never set\<close>

lemma perform_absent:
  "items c k = None \<Longrightarrow> \<not> creates k x \<Longrightarrow> items (snd (perform x c)) k = None"
proof (cases x)
  case (GetCall now key)
  assume "items c k = None"
  then show ?thesis using GetCall by (simp add: Get_def split: option.splits)
next
  case (SetCall now key v e)
  assume "items c k = None" "\<not> creates k x"
  then show ?thesis using SetCall by (simp add: Set_def Let_def split: option.splits)
next
  case (UpdateCall key v e b)
  assume "items c k = None"
  then show ?thesis using UpdateCall by (simp add: Update_def)
next
  case (SweepPass visits)
  assume n: "items c k = None"
  have "items (initExpiration visits c) k = None"
  proof (cases "range_items visits (items c) k")
    case None
    then show ?thesis by (simp add: initExpiration_def)
  next
    case (Some v)
    then have "items c k = Some v" by (rule range_items_subset)
    with n show ?thesis by simp
  qed
  then show ?thesis using SweepPass by simp
qed

lemma run_absent:
  "items c k = None \<Longrightarrow> \<not> list_ex (creates k) calls \<Longrightarrow> items (snd (run calls c)) k = None"
proof (induction calls arbitrary: c)
  case Nil
  then show ?case by simp
next
  case (Cons x xs)
  from Cons.prems have "items (snd (perform x c)) k = None"
    by (intro perform_absent) simp_all
  moreover from Cons.prems have "\<not> list_ex (creates k) xs" by simp
  ultimately have "items (snd (run xs (snd (perform x c)))) k = None"
    by (intro Cons.IH)
  then show ?case by (simp add: split_beta)
qed

text \<open>
  C9. Take a new cache and any sequence of calls on it, none of which is a \<open>Set\<close> on
  the key or an \<open>Update\<close> on the key with \<open>setIfNotExist\<close>. A \<open>Get\<close> on the key then
  fails with "key does not exist" and leaves the cache, so the map, unchanged.
\<close>

theorem Get_never_set:
  assumes "\<not> list_ex (creates key) calls"
  shows "Get now key (snd (run calls (fst (NewCache d)))) =
           ((None, Some KeyDoesNotExist), snd (run calls (fst (NewCache d))))"
proof -
  have "items (fst (NewCache d) :: 'a cache) key = None" by (simp add: NewCache_def)
  then have "items (snd (run calls (fst (NewCache d)))) key = None"
    using assms by (rule run_absent)
  then show ?thesis by (rule Get_absent)
qed

theorem Get_never_set_witness:
  "Get 300 ''b''
     (snd (run [SetCall 100 ''a'' (42::nat) 90, GetCall 100 ''b'', UpdateCall ''b'' 7 400 False,
                SweepPass [(''a'', 200)], GetCall 250 ''a'']
            (fst (NewCache DefaultExpiration)))) =
   ((None, Some KeyDoesNotExist),
    snd (run [SetCall 100 ''a'' (42::nat) 90, GetCall 100 ''b'', UpdateCall ''b'' 7 400 False,
              SweepPass [(''a'', 200)], GetCall 250 ''a'']
          (fst (NewCache DefaultExpiration))))"
  by (rule Get_never_set) simp

section \<open>The default expiration\<close>

lemma perform_defaultExpr:
  "perform x (c\<lparr>defaultExpr := d\<rparr>) =
   (fst (perform x c), (snd (perform x c))\<lparr>defaultExpr := d\<rparr>)"
  by (cases x)
     (simp_all add: Get_def Set_def Update_def initExpiration_def Let_def split: option.splits)

lemma run_defaultExpr:
  "run calls (c\<lparr>defaultExpr := d\<rparr>) = (fst (run calls c), (snd (run calls c))\<lparr>defaultExpr := d\<rparr>)"
proof (induction calls arbitrary: c)
  case Nil
  show ?case by simp
next
  case (Cons x xs)
  show ?case
    by (simp add: perform_defaultExpr Cons.IH split_beta)
qed

text \<open>
  C10. Two caches made by \<open>NewCache\<close> with the default expirations \<open>d1\<close> and \<open>d2\<close>
  answer every sequence of \<open>Get\<close>, \<open>Set\<close>, \<open>Update\<close> calls and sweep passes with the
  same results, and end with the same map (and the same sweep interval): no operation
  reads the field \<open>defaultExpr\<close>.
\<close>

theorem defaultExpr_not_observable:
  "fst (run calls (fst (NewCache d1))) = fst (run calls (fst (NewCache d2)))
   \<and> items (snd (run calls (fst (NewCache d1)))) = items (snd (run calls (fst (NewCache d2))))
   \<and> checkExpiredInterval (snd (run calls (fst (NewCache d1)))) =
       checkExpiredInterval (snd (run calls (fst (NewCache d2))))"
proof -
  have "fst (NewCache d1) = (fst (NewCache d2) :: 'a cache)\<lparr>defaultExpr := d1\<rparr>"
    by (simp add: NewCache_def)
  then have "run calls (fst (NewCache d1)) =
      (fst (run calls (fst (NewCache d2))),
       (snd (run calls (fst (NewCache d2)) :: 'a result option list \<times> 'a cache))
         \<lparr>defaultExpr := d1\<rparr>)"
    by (simp only: run_defaultExpr)
  then show ?thesis by simp
qed

end
